theory Spec2Isabelle
  imports Main
begin

section \<open>Text primitives\<close>

text \<open>
  Python strings are sequences of code points. A text is modelled as a list of 8-bit
  characters read as the code points U+0000 to U+00FF; the character classes below are
  the ones Python's \<^verbatim>\<open>str.isspace\<close>, \<^verbatim>\<open>str.lower\<close> and the regular expression
  class \<^verbatim>\<open>\w\<close> have on that range.
\<close>

definition code :: "char \<Rightarrow> nat" where
  "code c = of_char c"

text \<open>\<^verbatim>\<open>str.isspace\<close>: tab to carriage return, the four separators 28 to 31, space,
  next-line (133) and the no-break space (160).\<close>

definition isspace :: "char \<Rightarrow> bool" where
  "isspace c = (code c \<in> set [9, 10, 11, 12, 13, 28, 29, 30, 31, 32, 133, 160])"

text \<open>The class \<^verbatim>\<open>\w\<close> of a Unicode pattern: the underscore and every alphanumeric
  character (letters, digits, and the numeric characters of the upper half).\<close>

definition is_word :: "char \<Rightarrow> bool" where
  "is_word c = (let n = code c in
     (48 \<le> n \<and> n \<le> 57) \<or> (65 \<le> n \<and> n \<le> 90) \<or> n = 95 \<or> (97 \<le> n \<and> n \<le> 122) \<or>
     n = 170 \<or> n = 178 \<or> n = 179 \<or> n = 181 \<or> n = 185 \<or> n = 186 \<or>
     (188 \<le> n \<and> n \<le> 190) \<or> (192 \<le> n \<and> n \<le> 214) \<or> (216 \<le> n \<and> n \<le> 246) \<or>
     (248 \<le> n \<and> n \<le> 255))"

definition is_digit :: "char \<Rightarrow> bool" where
  "is_digit c = (48 \<le> code c \<and> code c \<le> 57)"

text \<open>\<^verbatim>\<open>str.lower\<close>, character by character.\<close>

definition lower_char :: "char \<Rightarrow> char" where
  "lower_char c = (let n = code c in
     if (65 \<le> n \<and> n \<le> 90) \<or> (192 \<le> n \<and> n \<le> 222 \<and> n \<noteq> 215) then char_of (n + 32) else c)"

definition lower :: "string \<Rightarrow> string" where
  "lower s = map lower_char s"

text \<open>\<^verbatim>\<open>s.strip()\<close> and \<^verbatim>\<open>s.strip(chars)\<close>.\<close>

definition strip_with :: "(char \<Rightarrow> bool) \<Rightarrow> string \<Rightarrow> string" where
  "strip_with P s = rev (dropWhile P (rev (dropWhile P s)))"

definition strip :: "string \<Rightarrow> string" where
  "strip s = strip_with isspace s"

text \<open>\<^verbatim>\<open>s.startswith(p)\<close> and \<^verbatim>\<open>p in s\<close>.\<close>

definition startswith :: "string \<Rightarrow> string \<Rightarrow> bool" where
  "startswith p s = (take (length p) s = p)"

fun str_in :: "string \<Rightarrow> string \<Rightarrow> bool" where
  "str_in p [] = (p = [])"
| "str_in p (c # cs) = (startswith p (c # cs) \<or> str_in p cs)"

text \<open>\<^verbatim>\<open>s.split(sep)\<close> for a separator of one character: never the empty list.\<close>

fun split :: "char \<Rightarrow> string \<Rightarrow> string list" where
  "split sep [] = [[]]"
| "split sep (c # cs) =
     (if c = sep then [] # split sep cs
      else (case split sep cs of [] \<Rightarrow> [[c]] | l # ls \<Rightarrow> (c # l) # ls))"

definition newline :: char where
  "newline = CHR 0x0A"

text \<open>The decimal rendering of a number in an f-string.\<close>

fun show_nat :: "nat \<Rightarrow> string" where
  "show_nat n =
     (if n < 10 then [char_of (48 + n)] else show_nat (n div 10) @ [char_of (48 + n mod 10)])"

declare show_nat.simps [simp del]

definition show_int :: "int \<Rightarrow> string" where
  "show_int i = (if i < 0 then CHR ''-'' # show_nat (nat (- i)) else show_nat (nat i))"

section \<open>Ordered dictionaries\<close>

text \<open>
  A Python dict keeps its keys in insertion order; assigning to a key that is present
  replaces the value where the key stands, assigning to a new key appends it.
\<close>

fun dict_set :: "('k \<times> 'v) list \<Rightarrow> 'k \<Rightarrow> 'v \<Rightarrow> ('k \<times> 'v) list" where
  "dict_set [] k v = [(k, v)]"
| "dict_set ((k', v') # d) k v =
     (if k' = k then (k, v) # d else (k', v') # dict_set d k v)"

text \<open>\<^verbatim>\<open>d.update(e)\<close>: the items of \<open>e\<close> assigned one by one, in the order of \<open>e\<close>.\<close>

fun dict_update :: "('k \<times> 'v) list \<Rightarrow> ('k \<times> 'v) list \<Rightarrow> ('k \<times> 'v) list" where
  "dict_update d [] = d"
| "dict_update d ((k, v) # e) = dict_update (dict_set d k v) e"

section \<open>The response parser (orchestrator.py)\<close>

subsection \<open>Fenced blocks: \<^verbatim>\<open>re.findall\<close> with the fence pattern\<close>

text \<open>
  The pattern is three backticks, \<^verbatim>\<open>(\w+)\<close>, a newline, \<^verbatim>\<open>(.*?)\<close> with DOTALL, three
  backticks. \<open>find_fence\<close> is the lazy group followed by the closing fence: the text
  up to the first closing fence, and the text after it.
\<close>

definition fence :: string where
  "fence = ''```''"

fun find_fence :: "string \<Rightarrow> (string \<times> string) option" where
  "find_fence [] = None"
| "find_fence (c # cs) =
     (if startswith fence (c # cs) then Some ([], drop 3 (c # cs))
      else (case find_fence cs of None \<Rightarrow> None | Some (b, a) \<Rightarrow> Some (c # b, a)))"

text \<open>
  One attempt of the pattern at the start of the text: the language token, the body and
  the text after the match. The greedy \<^verbatim>\<open>\w+\<close> takes the longest run of word characters;
  giving characters back cannot help, since a newline is no word character.
\<close>

definition match_here :: "string \<Rightarrow> (string \<times> string \<times> string) option" where
  "match_here s =
     (if startswith fence s then
        (let t = drop 3 s; language = takeWhile is_word t; u = dropWhile is_word t in
         if language \<noteq> [] \<and> startswith [newline] u then
           (case find_fence (tl u) of
              None \<Rightarrow> None
            | Some (body, rest) \<Rightarrow> Some (language, body, rest))
         else None)
      else None)"

lemma find_fence_shorter: "find_fence s = Some (b, a) \<Longrightarrow> length a < length s"
proof (induction s arbitrary: b a)
  case Nil
  then show ?case by simp
next
  case (Cons c cs)
  show ?case
  proof (cases "startswith fence (c # cs)")
    case True
    with Cons.prems show ?thesis by auto
  next
    case False
    with Cons.prems obtain b' where "find_fence cs = Some (b', a)"
      by (auto split: option.splits)
    from Cons.IH [OF this] show ?thesis by simp
  qed
qed

lemma match_here_shorter:
  assumes "match_here s = Some (l, b, r)"
  shows "length r < length s"
proof -
  from assms have f: "find_fence (tl (dropWhile is_word (drop 3 s))) = Some (b, r)"
    by (auto simp: match_here_def Let_def split: if_splits option.splits)
  have "length r < length (tl (dropWhile is_word (drop 3 s)))"
    by (rule find_fence_shorter [OF f])
  also have "\<dots> \<le> length (dropWhile is_word (drop 3 s))"
    by simp
  also have "\<dots> \<le> length (drop 3 s)"
    by (rule length_dropWhile_le)
  also have "\<dots> \<le> length s"
    by simp
  finally show ?thesis .
qed

text \<open>
  \<^verbatim>\<open>re.findall\<close>: the matches from left to right, without overlap; where the pattern does
  not match, the scan moves on by one character.
\<close>

function findall :: "string \<Rightarrow> (string \<times> string) list" where
  "findall [] = []"
| "findall (c # cs) =
     (case match_here (c # cs) of
        None \<Rightarrow> findall cs
      | Some (language, body, rest) \<Rightarrow> (language, body) # findall rest)"
  by pat_completeness auto
termination
  by (relation "measure length") (auto dest: match_here_shorter)

subsection \<open>The checks on a block\<close>

definition non_executable :: "string list" where
  "non_executable =
     [''json'', ''yaml'', ''yml'', ''toml'', ''xml'', ''html'', ''css'', ''markdown'', ''md'', ''txt'']"

definition normalize_type :: "string \<Rightarrow> string" where
  "normalize_type script_type =
     (if script_type \<in> set [''sh'', ''shell'', ''bash''] then ''bash''
      else if script_type \<in> set [''py'', ''python3''] then ''python''
      else script_type)"

definition script_name :: "nat \<Rightarrow> string \<Rightarrow> string" where
  "script_name i script_type = ''script_'' @ show_nat i @ ''_'' @ script_type"

text \<open>\<^verbatim>\<open>_is_runner_script\<close>: the loop over \<open>actual_lines\<close> with its two early returns.\<close>

fun runner_loop :: "string list \<Rightarrow> bool" where
  "runner_loop [] = False"
| "runner_loop (line # rest) =
     (if str_in ''chmod'' line \<and> str_in ''.sh'' line then True
      else if startswith ''./'' line \<and> str_in ''.sh'' line then True
      else runner_loop rest)"

definition actual_lines :: "string \<Rightarrow> string list" where
  "actual_lines content =
     map strip (filter (\<lambda>l. strip l \<noteq> [] \<and> \<not> startswith ''#'' (strip l))
       (split newline (strip content)))"

definition is_runner_script :: "string \<Rightarrow> bool" where
  "is_runner_script content =
     (if length (actual_lines content) \<le> 2 then runner_loop (actual_lines content) else False)"

text \<open>\<^verbatim>\<open>_is_cleanup_script\<close>: the loop over the indicators, returning at the first one
  that passes both tests.\<close>

definition cleanup_indicators :: "string list" where
  "cleanup_indicators =
     [''cleanup'', ''clean up'', ''remove'', ''rm -rf'', ''delete'', ''tear down'', ''teardown'']"

fun cleanup_loop :: "string \<Rightarrow> string list \<Rightarrow> bool" where
  "cleanup_loop content_lower [] = False"
| "cleanup_loop content_lower (indicator # rest) =
     (if str_in indicator (take 200 content_lower) then
        (if (str_in ''echo'' content_lower \<and> str_in indicator content_lower) \<or>
            (str_in (''# '' @ indicator) content_lower \<or> str_in (''#'' @ indicator) content_lower)
         then True
         else cleanup_loop content_lower rest)
      else cleanup_loop content_lower rest)"

definition is_cleanup_script :: "string \<Rightarrow> bool" where
  "is_cleanup_script content = cleanup_loop (lower content) cleanup_indicators"

subsection \<open>\<^verbatim>\<open>_extract_scripts_from_response\<close>\<close>

record script_data =
  sd_content :: string
  sd_type :: string

type_synonym script_dict = "(string \<times> script_data) list"

text \<open>
  The loop over \<^verbatim>\<open>enumerate(matches, 1)\<close>, with the two dictionaries it fills. Each
  \<^verbatim>\<open>continue\<close> is a recursive call that leaves both unchanged.
\<close>

fun extract_loop ::
  "nat \<Rightarrow> (string \<times> string) list \<Rightarrow> script_dict \<Rightarrow> script_dict \<Rightarrow> script_dict \<times> script_dict"
where
  "extract_loop i [] scripts cleanup_scripts = (scripts, cleanup_scripts)"
| "extract_loop i ((language, content) # matches) scripts cleanup_scripts =
     (if lower language \<in> set non_executable then
        extract_loop (Suc i) matches scripts cleanup_scripts
      else
        (let script_type = normalize_type (lower language);
             name = script_name i script_type;
             data = \<lparr>sd_content = strip content, sd_type = script_type\<rparr>
         in if is_runner_script content then
              extract_loop (Suc i) matches scripts cleanup_scripts
            else if is_cleanup_script content then
              extract_loop (Suc i) matches scripts (dict_set cleanup_scripts name data)
            else
              extract_loop (Suc i) matches (dict_set scripts name data) cleanup_scripts))"

definition extract_scripts_from_response :: "string \<Rightarrow> script_dict" where
  "extract_scripts_from_response response =
     (case extract_loop 1 (findall response) [] [] of
        (scripts, cleanup_scripts) \<Rightarrow> dict_update scripts cleanup_scripts)"

text \<open>
  The decision the loop body takes on a block, named by the branch it leaves through:
  the first \<^verbatim>\<open>continue\<close>, the second \<^verbatim>\<open>continue\<close>, the cleanup dictionary, the
  scripts dictionary.
\<close>

datatype decision = RejectedNonExecutable | RejectedRunner | Cleanup | Normal

definition classify :: "string \<Rightarrow> string \<Rightarrow> decision" where
  "classify language content =
     (if lower language \<in> set non_executable then RejectedNonExecutable
      else if is_runner_script content then RejectedRunner
      else if is_cleanup_script content then Cleanup
      else Normal)"

text \<open>The candidates of a response: the matched blocks with their ordinals, from 1.\<close>

definition candidates :: "string \<Rightarrow> (nat \<times> string \<times> string) list" where
  "candidates response = zip [1 ..< Suc (length (findall response))] (findall response)"

definition entry_of :: "nat \<times> string \<times> string \<Rightarrow> string \<times> script_data" where
  "entry_of c =
     (case c of (i, language, content) \<Rightarrow>
        (script_name i (normalize_type (lower language)),
         \<lparr>sd_content = strip content, sd_type = normalize_type (lower language)\<rparr>))"

definition decision_of :: "nat \<times> string \<times> string \<Rightarrow> decision" where
  "decision_of c = (case c of (i, language, content) \<Rightarrow> classify language content)"

section \<open>The script executor (executor.py)\<close>

subsection \<open>\<^verbatim>\<open>_generate_script_filename\<close>\<close>

text \<open>
  \<^verbatim>\<open>random.choices(population, k=k)\<close> draws \<open>k\<close> members of the population; the draws
  are a parameter, the \<open>j\<close>-th one reduced to an index of the population.
\<close>

definition random_choices :: "(nat \<Rightarrow> nat) \<Rightarrow> 'a list \<Rightarrow> nat \<Rightarrow> 'a list" where
  "random_choices draw population k =
     map (\<lambda>j. population ! (draw j mod length population)) [0 ..< k]"

definition suffix_alphabet :: string where
  "suffix_alphabet = ''abcdefghijklmnopqrstuvwxyz'' @ ''0123456789''"

definition extension_of :: "string \<Rightarrow> string" where
  "extension_of script_type =
     (if lower script_type \<in> set [''bash'', ''sh''] then ''.sh''
      else if lower script_type = ''python'' then ''.py''
      else ''.'' @ script_type)"

text \<open>\<^verbatim>\<open>re.sub(r'[^\w\-.]', '_', source_context)\<close>, then \<^verbatim>\<open>strip('_')\<close>, then the last
  50 characters of a longer text.\<close>

definition safe_char :: "char \<Rightarrow> bool" where
  "safe_char c = (is_word c \<or> c = CHR ''-'' \<or> c = CHR ''.'')"

definition sanitize :: "string \<Rightarrow> string" where
  "sanitize source_context =
     (let sanitized = map (\<lambda>c. if safe_char c then c else CHR ''_'') source_context;
          sanitized = strip_with (\<lambda>c. c = CHR ''_'') sanitized
      in if length sanitized > 50 then drop (length sanitized - 50) sanitized else sanitized)"

text \<open>\<open>source_context\<close> is the executor's field: \<open>None\<close> and the empty text are both
  false in the test \<^verbatim>\<open>if self.source_context\<close>.\<close>

definition generate_script_filename ::
  "string option \<Rightarrow> (nat \<Rightarrow> nat) \<Rightarrow> string \<Rightarrow> nat \<Rightarrow> string" where
  "generate_script_filename source_context draw script_type script_index =
     (let extension = extension_of script_type;
          random_suffix = random_choices draw suffix_alphabet 6
      in case source_context of
           None \<Rightarrow> ''_gen-script'' @ show_nat script_index @ ''-'' @ random_suffix @ extension
         | Some src \<Rightarrow>
             if src = [] then
               ''_gen-script'' @ show_nat script_index @ ''-'' @ random_suffix @ extension
             else ''_gen-'' @ sanitize src @ ''-'' @ random_suffix @ extension)"

subsection \<open>\<^verbatim>\<open>execute_script\<close>\<close>

text \<open>
  What the \<^verbatim>\<open>try\<close> block of \<^verbatim>\<open>execute_script\<close> meets.
  \<^item> \<open>Completed\<close>: \<^verbatim>\<open>subprocess.run\<close> returned, the process having ended with a return
    code, its output was decoded as text, and nothing in the block raised.
  \<^item> \<open>TimeoutExpired\<close>: \<^verbatim>\<open>subprocess.TimeoutExpired\<close> was raised.
  \<^item> \<open>OtherException\<close>: any other exception was raised in the block, with its text.
    It is raised before the process ends (writing the file, \<^verbatim>\<open>chmod\<close>, spawning the
    interpreter) or after it (decoding the captured output, which \<^verbatim>\<open>text=True\<close> asks
    for, or printing it); the first component is the exit status of the process when it
    had ended by then.
  The environment is a function of a world state, which the call changes: the file
  system, the random generator and the processes are in it.
\<close>

datatype run_event =
  Completed int string string | TimeoutExpired | OtherException "int option" string

text \<open>The exit status of the process, when it ended by itself.\<close>

definition exit_status :: "run_event \<Rightarrow> int option" where
  "exit_status ev =
     (case ev of
        Completed returncode out err \<Rightarrow> Some returncode
      | TimeoutExpired \<Rightarrow> None
      | OtherException status e \<Rightarrow> status)"

type_synonym 'w runner = "'w \<Rightarrow> string \<Rightarrow> string \<Rightarrow> int \<Rightarrow> nat \<Rightarrow> run_event \<times> 'w"

definition timeout_message :: "int \<Rightarrow> string" where
  "timeout_message timeout = ''Script execution timed out after '' @ show_int timeout @ '' seconds''"

definition outcome_of :: "int \<Rightarrow> run_event \<Rightarrow> bool \<times> string \<times> string" where
  "outcome_of timeout ev =
     (case ev of
        Completed returncode out err \<Rightarrow> (returncode = 0, out, err)
      | TimeoutExpired \<Rightarrow> (False, [], timeout_message timeout)
      | OtherException status e \<Rightarrow> (False, [], ''Failed to execute script: '' @ e))"

definition execute_script ::
  "'w runner \<Rightarrow> 'w \<Rightarrow> string \<Rightarrow> string \<Rightarrow> int \<Rightarrow> nat \<Rightarrow> (bool \<times> string \<times> string) \<times> 'w" where
  "execute_script run w script_content script_type timeout script_index =
     (case run w script_content script_type timeout script_index of
        (ev, w') \<Rightarrow> (outcome_of timeout ev, w'))"

subsection \<open>\<^verbatim>\<open>execute_multiple_scripts\<close>\<close>

type_synonym outcomes = "(string \<times> bool \<times> string \<times> string) list"

text \<open>The loop over \<^verbatim>\<open>enumerate(scripts.items())\<close>; \<^verbatim>\<open>execute_script\<close> is called with its
  default timeout of 600 seconds.\<close>

fun exec_loop ::
  "'w runner \<Rightarrow> bool \<Rightarrow> nat \<Rightarrow> script_dict \<Rightarrow> outcomes \<Rightarrow> 'w \<Rightarrow> outcomes \<times> 'w" where
  "exec_loop run stop_on_failure idx [] results w = (results, w)"
| "exec_loop run stop_on_failure idx ((name, script_info) # rest) results w =
     (case execute_script run w (sd_content script_info) (sd_type script_info) 600 idx of
        ((ok, out, err), w') \<Rightarrow>
          (let results' = dict_set results name (ok, out, err)
           in if \<not> ok \<and> stop_on_failure then (results', w')
              else exec_loop run stop_on_failure (Suc idx) rest results' w'))"

definition execute_multiple_scripts ::
  "'w runner \<Rightarrow> bool \<Rightarrow> 'w \<Rightarrow> script_dict \<Rightarrow> outcomes \<times> 'w" where
  "execute_multiple_scripts run stop_on_failure w scripts =
     exec_loop run stop_on_failure 0 scripts [] w"

text \<open>Running every script of a list in turn, whatever the results: the reference the
  stopping loop is compared with.\<close>

fun run_all :: "'w runner \<Rightarrow> nat \<Rightarrow> script_dict \<Rightarrow> 'w \<Rightarrow> outcomes \<times> 'w" where
  "run_all run idx [] w = ([], w)"
| "run_all run idx ((name, script_info) # rest) w =
     (case execute_script run w (sd_content script_info) (sd_type script_info) 600 idx of
        (r, w') \<Rightarrow> (case run_all run (Suc idx) rest w' of (rs, w'') \<Rightarrow> ((name, r) # rs, w'')))"

section \<open>The orchestrator: \<^verbatim>\<open>test_documentation\<close>\<close>

record detail =
  script :: string
  d_success :: bool
  stdout :: string
  stderr :: string

record test_result =
  success :: bool
  documentation_sources :: "string list"
  documentation_count :: nat
  scripts_generated :: nat
  scripts_executed :: nat
  scripts_passed :: nat
  scripts_failed :: nat
  scripts :: script_dict
  details :: "detail list"
  error :: "string option"

text \<open>The loop over \<^verbatim>\<open>execution_results.items()\<close>.\<close>

fun tally :: "outcomes \<Rightarrow> test_result \<Rightarrow> test_result" where
  "tally [] r = r"
| "tally ((name, ok, out, err) # rest) r =
     tally rest
       ((if ok then r\<lparr>scripts_passed := scripts_passed r + 1\<rparr>
         else r\<lparr>scripts_failed := scripts_failed r + 1\<rparr>)
        \<lparr>details := details r @
           [\<lparr>script = name, d_success = ok, stdout = take 1000 out, stderr = take 1000 err\<rparr>]\<rparr>)"

text \<open>
  \<^verbatim>\<open>_generate_test_scripts\<close>: the prompt is formatted, sent once, and the answer parsed.
  The parameter is what the step up to the answer gave: the text of the exception
  raised there (by \<^verbatim>\<open>send_message\<close>, or by the progress display), or the response.
\<close>

definition generate_test_scripts :: "string + string \<Rightarrow> string + script_dict" where
  "generate_test_scripts ai =
     (case ai of Inl e \<Rightarrow> Inl e | Inr response \<Rightarrow> Inr (extract_scripts_from_response response))"

text \<open>
  \<^verbatim>\<open>test_documentation\<close>. The collaborators are parameters, one for each place where
  the function catches an exception.
  \<^item> \<open>fetched\<close>: what the fetching step gave, the text of its exception or the
    documents.
  \<^item> \<open>ai\<close>: what the generation step gave up to the answer of the model.
  \<^item> \<open>executor_init\<close>: the text of an exception raised in the execution step before
    \<^verbatim>\<open>execute_multiple_scripts\<close> has returned its results, if there is one; setting up
    the \<^verbatim>\<open>ScriptExecutor\<close> creates the working directory. The counts are not yet
    assigned then.
  \<^item> \<open>run\<close> and \<open>w\<close>: the environment of the scripts.
  \<^item> \<open>executor_exit\<close>: the text of an exception raised on leaving the \<^verbatim>\<open>with\<close>
    block, if there is one; \<^verbatim>\<open>__exit__\<close> calls \<^verbatim>\<open>cleanup\<close>, which looks at the working
    directory and prints. The counts and the details are assigned by then, and the
    function returns from its \<^verbatim>\<open>except\<close> clause without assigning \<open>success\<close>.
\<close>

definition test_documentation ::
  "string + (string \<times> string) list \<Rightarrow> string + string \<Rightarrow> string option \<Rightarrow> 'w runner \<Rightarrow> 'w \<Rightarrow>
   string option \<Rightarrow> string list \<Rightarrow> bool \<Rightarrow> test_result" where
  "test_documentation fetched ai executor_init run w executor_exit sources stop_on_failure =
     (let results = \<lparr>success = False, documentation_sources = sources, documentation_count = 0,
            scripts_generated = 0, scripts_executed = 0, scripts_passed = 0, scripts_failed = 0,
            scripts = [], details = [], error = None\<rparr>
      in case fetched of
           Inl e \<Rightarrow> results\<lparr>error := Some (''Failed to fetch documentation: '' @ e)\<rparr>
         | Inr docs \<Rightarrow>
             (let results = results\<lparr>documentation_count := length docs\<rparr>
              in case generate_test_scripts ai of
                   Inl e \<Rightarrow> results\<lparr>error := Some (''Failed to generate test scripts: '' @ e)\<rparr>
                 | Inr generated \<Rightarrow>
                     (let results = results\<lparr>scripts_generated := length generated,
                                            scripts := generated\<rparr>
                      in if generated = [] then
                           results\<lparr>error := Some ''No test scripts were generated''\<rparr>
                         else
                           (case executor_init of
                              Some e \<Rightarrow> results\<lparr>error := Some (''Failed to execute scripts: '' @ e)\<rparr>
                            | None \<Rightarrow>
                                (case execute_multiple_scripts run stop_on_failure w generated of
                                   (execution_results, w') \<Rightarrow>
                                     (let results = tally execution_results
                                            (results\<lparr>scripts_executed := length execution_results\<rparr>)
                                      in case executor_exit of
                                           Some e \<Rightarrow>
                                             results\<lparr>error := Some (''Failed to execute scripts: '' @ e)\<rparr>
                                         | None \<Rightarrow>
                                             results\<lparr>success := scripts_executed results > 0 \<and>
                                                              scripts_failed results = 0\<rparr>))))))"

section \<open>Properties of the response parser\<close>

subsection \<open>Script names\<close>

definition digits_value :: "string \<Rightarrow> nat" where
  "digits_value s = foldl (\<lambda>a c. 10 * a + (code c - 48)) 0 s"

lemma code_char_of: "n < 256 \<Longrightarrow> code (char_of n) = n"
  by (simp add: code_def)

lemma digits_value_show_nat: "digits_value (show_nat n) = n"
proof (induction n rule: show_nat.induct)
  case (1 n)
  show ?case
  proof (cases "n < 10")
    case True
    then show ?thesis
      by (subst show_nat.simps) (simp add: digits_value_def code_char_of)
  next
    case False
    have m: "n mod 10 < 10" by simp
    from False 1 have ih: "digits_value (show_nat (n div 10)) = n div 10" by simp
    have "digits_value (show_nat n) = 10 * digits_value (show_nat (n div 10)) + n mod 10"
      using False m by (subst show_nat.simps) (simp add: digits_value_def code_char_of)
    with ih show ?thesis by simp
  qed
qed

lemma show_nat_inj: "show_nat m = show_nat n \<Longrightarrow> m = n"
  by (metis digits_value_show_nat)

lemma show_nat_digits: "c \<in> set (show_nat n) \<Longrightarrow> is_digit c"
proof (induction n rule: show_nat.induct)
  case (1 n)
  show ?case
  proof (cases "n < 10")
    case True
    with "1.prems" show ?thesis
      by (subst (asm) show_nat.simps) (simp add: is_digit_def code_char_of)
  next
    case False
    have m: "n mod 10 < 10" by simp
    from "1.prems" False have "c \<in> set (show_nat (n div 10)) \<or> c = char_of (48 + n mod 10)"
      by (subst (asm) show_nat.simps) auto
    then show ?thesis
    proof
      assume "c \<in> set (show_nat (n div 10))"
      with 1 False show ?thesis by simp
    next
      assume "c = char_of (48 + n mod 10)"
      with m show ?thesis by (simp add: is_digit_def code_char_of)
    qed
  qed
qed

lemma underscore_no_digit: "\<not> is_digit (CHR ''_'')"
  by (simp add: is_digit_def code_def)

lemma takeWhile_digits_name:
  "takeWhile is_digit (show_nat i @ ''_'' @ t) = show_nat i"
proof -
  have "takeWhile is_digit (show_nat i @ ''_'' @ t) = show_nat i @ takeWhile is_digit (''_'' @ t)"
    by (rule takeWhile_append2) (rule show_nat_digits)
  then show ?thesis by (simp add: underscore_no_digit)
qed

lemma script_name_inj: 
  assumes "script_name i t = script_name j u" 
  shows "i = j \<and> t = u"
proof -
  from assms have e: "show_nat i @ ''_'' @ t = show_nat j @ ''_'' @ u"
    by (simp add: script_name_def)
  then have "takeWhile is_digit (show_nat i @ ''_'' @ t) = takeWhile is_digit (show_nat j @ ''_'' @ u)"
    by simp
  then have s: "show_nat i = show_nat j"
    by (simp only: takeWhile_digits_name)
  with e show ?thesis by (auto dest: show_nat_inj)
qed

lemma dict_set_fresh: "k \<notin> fst ` set d \<Longrightarrow> dict_set d k v = d @ [(k, v)]"
  by (induction d) auto

lemma dict_update_fresh:
  "distinct (map fst e) \<Longrightarrow> fst ` set e \<inter> fst ` set d = {} \<Longrightarrow> dict_update d e = d @ e"
proof (induction e arbitrary: d)
  case Nil
  then show ?case by simp
next
  case (Cons x e)
  obtain k v where x: "x = (k, v)" by (cases x)
  from Cons.prems x have k: "k \<notin> fst ` set d" by auto
  from Cons.prems x have "distinct (map fst e)" and "fst ` set e \<inter> fst ` set (d @ [(k, v)]) = {}"
    by auto
  from Cons.IH [OF this] show ?case
    by (simp add: x dict_set_fresh [OF k])
qed

subsection \<open>The loop as two filters\<close>

definition number_from :: "nat \<Rightarrow> 'a list \<Rightarrow> (nat \<times> 'a) list" where
  "number_from i xs = zip [i ..< i + length xs] xs"

lemma number_from_Nil: "number_from i [] = []"
  by (simp add: number_from_def)

lemma number_from_Cons: "number_from i (x # xs) = (i, x) # number_from (Suc i) xs"
  by (simp add: number_from_def upt_conv_Cons del: upt_Suc)

lemma number_from_fst: "map fst (number_from i xs) = [i ..< i + length xs]"
  by (simp add: number_from_def)

lemma candidates_number_from: "candidates response = number_from 1 (findall response)"
  by (simp add: candidates_def number_from_def)

definition keys_below :: "nat \<Rightarrow> script_dict \<Rightarrow> bool" where
  "keys_below i d = (\<forall>k \<in> fst ` set d. \<exists>j t. j < i \<and> k = script_name j t)"

lemma keys_below_fresh: "keys_below i d \<Longrightarrow> script_name i t \<notin> fst ` set d"
proof
  assume kb: "keys_below i d" and "script_name i t \<in> fst ` set d"
  then obtain j u where "j < i" and "script_name i t = script_name j u"
    unfolding keys_below_def by blast
  then show False by (auto dest: script_name_inj)
qed

lemma keys_below_mono: "keys_below i d \<Longrightarrow> keys_below (Suc i) d"
  unfolding keys_below_def by (meson less_Suc_eq)

lemma keys_below_snoc:
  assumes "keys_below i d"
  shows "keys_below (Suc i) (d @ [(script_name i t, v)])"
  unfolding keys_below_def
proof
  fix k
  assume "k \<in> fst ` set (d @ [(script_name i t, v)])"
  then have "k \<in> fst ` set d \<or> k = script_name i t" by auto
  then show "\<exists>j u. j < Suc i \<and> k = script_name j u"
  proof
    assume "k \<in> fst ` set d"
    with assms obtain j u where "j < i" "k = script_name j u"
      unfolding keys_below_def by blast
    then show ?thesis by (intro exI [of _ j] exI [of _ u]) simp
  next
    assume "k = script_name i t"
    then show ?thesis by (intro exI [of _ i] exI [of _ t]) simp
  qed
qed

lemma extract_loop_char:
  "keys_below i S \<Longrightarrow> keys_below i C \<Longrightarrow>
   extract_loop i ms S C =
     (S @ map entry_of (filter (\<lambda>c. decision_of c = Normal) (number_from i ms)),
      C @ map entry_of (filter (\<lambda>c. decision_of c = Cleanup) (number_from i ms)))"
proof (induction ms arbitrary: i S C)
  case Nil
  then show ?case by (simp add: number_from_Nil)
next
  case (Cons m ms)
  obtain language content where m: "m = (language, content)" by (cases m)
  let ?t = "normalize_type (lower language)"
  let ?d = "\<lparr>sd_content = strip content, sd_type = ?t\<rparr>"
  have S': "keys_below (Suc i) S" and C': "keys_below (Suc i) C"
    using Cons.prems by (auto intro: keys_below_mono)
  consider (nonexec) "classify language content = RejectedNonExecutable"
    | (runner) "classify language content = RejectedRunner"
    | (cleanup) "classify language content = Cleanup"
    | (normal) "classify language content = Normal"
    by (cases "classify language content") auto
  then show ?case
  proof cases
    case nonexec
    then have "lower language \<in> set non_executable"
      by (auto simp: classify_def split: if_splits)
    with nonexec Cons.IH [OF S' C'] show ?thesis
      by (simp add: m number_from_Cons decision_of_def)
  next
    case runner
    then have "lower language \<notin> set non_executable" "is_runner_script content"
      by (auto simp: classify_def split: if_splits)
    with runner Cons.IH [OF S' C'] show ?thesis
      by (simp add: m number_from_Cons decision_of_def)
  next
    case cleanup
    then have c: "lower language \<notin> set non_executable" "\<not> is_runner_script content"
        "is_cleanup_script content"
      by (auto simp: classify_def split: if_splits)
    have f: "dict_set C (script_name i ?t) ?d = C @ [(script_name i ?t, ?d)]"
      by (rule dict_set_fresh) (rule keys_below_fresh [OF Cons.prems(2)])
    have "keys_below (Suc i) (C @ [(script_name i ?t, ?d)])"
      by (rule keys_below_snoc [OF Cons.prems(2)])
    from Cons.IH [OF S' this] c cleanup f show ?thesis
      by (simp add: m number_from_Cons decision_of_def entry_of_def Let_def)
  next
    case normal
    then have c: "lower language \<notin> set non_executable" "\<not> is_runner_script content"
        "\<not> is_cleanup_script content"
      by (auto simp: classify_def split: if_splits)
    have f: "dict_set S (script_name i ?t) ?d = S @ [(script_name i ?t, ?d)]"
      by (rule dict_set_fresh) (rule keys_below_fresh [OF Cons.prems(1)])
    have "keys_below (Suc i) (S @ [(script_name i ?t, ?d)])"
      by (rule keys_below_snoc [OF Cons.prems(1)])
    from Cons.IH [OF this C'] c normal f show ?thesis
      by (simp add: m number_from_Cons decision_of_def entry_of_def Let_def)
  qed
qed

lemma entry_names_distinct:
  "distinct (map fst cs) \<Longrightarrow> distinct (map (fst \<circ> entry_of) cs)"
proof (induction cs)
  case Nil
  then show ?case by simp
next
  case (Cons c cs)
  have "(fst \<circ> entry_of) c \<notin> (fst \<circ> entry_of) ` set cs"
  proof
    assume "(fst \<circ> entry_of) c \<in> (fst \<circ> entry_of) ` set cs"
    then obtain c' where c': "c' \<in> set cs" and e: "fst (entry_of c) = fst (entry_of c')"
      by auto
    obtain i l b where c: "c = (i, l, b)" by (cases c)
    obtain i' l' b' where cc: "c' = (i', l', b')" by (cases c')
    from e c cc have "i = i'"
      by (auto simp: entry_of_def dest: script_name_inj)
    with c' cc have "i \<in> fst ` set cs" by force
    with Cons.prems c show False by simp
  qed
  with Cons show ?case by simp
qed

lemma filter_two_distinct:
  assumes "distinct (map f xs)" and "\<And>x. \<not> (P x \<and> Q x)"
  shows "distinct (map f (filter P xs @ filter Q xs))"
  using assms
proof (induction xs)
  case Nil
  then show ?case by simp
next
  case (Cons x xs)
  then have "f x \<notin> f ` set xs" and ih: "distinct (map f (filter P xs @ filter Q xs))"
    by auto
  then have n: "f x \<notin> f ` set (filter P xs)" "f x \<notin> f ` set (filter Q xs)"
    by auto
  with ih Cons.prems(2) [of x] show ?case by auto
qed

lemma extract_scripts_char:
  "extract_scripts_from_response response =
     map entry_of (filter (\<lambda>c. decision_of c = Normal) (candidates response)) @
     map entry_of (filter (\<lambda>c. decision_of c = Cleanup) (candidates response))"
proof -
  let ?cs = "candidates response"
  let ?N = "filter (\<lambda>c. decision_of c = Normal) ?cs"
  let ?K = "filter (\<lambda>c. decision_of c = Cleanup) ?cs"
  have kb: "keys_below 1 []" by (simp add: keys_below_def)
  have loop: "extract_loop 1 (findall response) [] [] = (map entry_of ?N, map entry_of ?K)"
    using extract_loop_char [OF kb kb, of "findall response"]
    by (simp add: candidates_number_from)
  have "distinct (map fst ?cs)"
    by (simp add: candidates_number_from number_from_fst)
  then have "distinct (map fst (?N @ ?K))"
    by (rule filter_two_distinct) auto
  then have "distinct (map (fst \<circ> entry_of) (?N @ ?K))"
    by (rule entry_names_distinct)
  then have d: "distinct (map fst (map entry_of ?N) @ map fst (map entry_of ?K))"
    by simp
  have dK: "distinct (map fst (map entry_of ?K))"
    using d by (simp only: distinct_append)
  have "set (map fst (map entry_of ?N)) \<inter> set (map fst (map entry_of ?K)) = {}"
    using d by (simp only: distinct_append)
  then have "fst ` set (map entry_of ?K) \<inter> fst ` set (map entry_of ?N) = {}"
    by (simp only: set_map Int_commute)
  with dK have "dict_update (map entry_of ?N) (map entry_of ?K) = map entry_of ?N @ map entry_of ?K"
    by (rule dict_update_fresh)
  with loop show ?thesis
    by (simp add: extract_scripts_from_response_def)
qed

subsection \<open>The order of the scripts\<close>

definition ordering_example :: string where
  "ordering_example =
     ''```bash'' @ [newline] @ ''echo one'' @ [newline] @ ''```'' @ [newline] @
     ''```bash'' @ [newline] @ ''# cleanup'' @ [newline] @ ''rm -rf /tmp/x'' @ [newline] @
       ''echo '' @ [CHR 0x22] @ ''done'' @ [CHR 0x22] @ [newline] @ ''```'' @ [newline] @
     ''```bash'' @ [newline] @ ''echo three'' @ [newline] @ ''```''"

lemma candidates_ordinals: "map fst (candidates response) = [1 ..< Suc (length (findall response))]"
  by (simp add: candidates_def del: upt_Suc)

lemma candidates_three:
  assumes "length (candidates response) = 3"
  shows "\<exists>a b c. candidates response = [(1, a), (2, b), (3, c)]"
proof -
  from assms have "length (findall response) = 3"
    by (simp add: candidates_def del: upt_Suc)
  then obtain a b c where "findall response = [a, b, c]"
    by (auto simp: length_Suc_conv numeral_3_eq_3)
  then have "candidates response = [(1, a), (2, b), (3, c)]"
    by (simp add: candidates_number_from number_from_Cons number_from_Nil)
  then show ?thesis by blast
qed

text \<open>
  Claim C1. For every response, the scripts the parser returns are the candidates decided
  normal, in their order of appearance, followed by the candidates decided cleanup, in
  their order of appearance; in particular three candidates decided normal, cleanup,
  normal give the order 1, 3, 2.
\<close>

theorem normal_then_cleanup_order:
  "extract_scripts_from_response response =
     map entry_of (filter (\<lambda>c. decision_of c = Normal) (candidates response)) @
     map entry_of (filter (\<lambda>c. decision_of c = Cleanup) (candidates response)) \<and>
   (map decision_of (candidates response) = [Normal, Cleanup, Normal] \<longrightarrow>
      (\<exists>t1 t2 t3. map fst (extract_scripts_from_response response) =
         [script_name 1 t1, script_name 3 t3, script_name 2 t2]))"
proof (intro conjI impI)
  show "extract_scripts_from_response response =
     map entry_of (filter (\<lambda>c. decision_of c = Normal) (candidates response)) @
     map entry_of (filter (\<lambda>c. decision_of c = Cleanup) (candidates response))"
    by (rule extract_scripts_char)
next
  assume d: "map decision_of (candidates response) = [Normal, Cleanup, Normal]"
  then have "length (candidates response) = 3"
    by (metis length_map length_Cons list.size(3) numeral_3_eq_3)
  then obtain a b c where cs: "candidates response = [(1, a), (2, b), (3, c)]"
    using candidates_three by blast
  with d have "decision_of (1, a) = Normal" "decision_of (2, b) = Cleanup"
      "decision_of (3, c) = Normal"
    by simp_all
  then have "map fst (extract_scripts_from_response response) =
      [fst (entry_of (1, a)), fst (entry_of (3, c)), fst (entry_of (2, b))]"
    by (simp add: extract_scripts_char cs)
  then show "\<exists>t1 t2 t3. map fst (extract_scripts_from_response response) =
         [script_name 1 t1, script_name 3 t3, script_name 2 t2]"
    by (cases a, cases b, cases c) (auto simp: entry_of_def)
qed

text \<open>The claim at a response of three bash blocks, the second a cleanup script.\<close>

theorem normal_then_cleanup_order_witness:
  "map decision_of (candidates ordering_example) = [Normal, Cleanup, Normal] \<and>
   map fst (extract_scripts_from_response ordering_example) =
     [''script_1_bash'', ''script_3_bash'', ''script_2_bash''] \<and>
   (\<exists>t1 t2 t3. map fst (extract_scripts_from_response ordering_example) =
         [script_name 1 t1, script_name 3 t3, script_name 2 t2])"
proof -
  have d: "map decision_of (candidates ordering_example) = [Normal, Cleanup, Normal]"
    by code_simp
  have n: "map fst (extract_scripts_from_response ordering_example) =
     [''script_1_bash'', ''script_3_bash'', ''script_2_bash'']"
    by code_simp
  from normal_then_cleanup_order [of ordering_example] d
  have "\<exists>t1 t2 t3. map fst (extract_scripts_from_response ordering_example) =
         [script_name 1 t1, script_name 3 t3, script_name 2 t2]"
    by blast
  with d n show ?thesis by blast
qed

subsection \<open>Names and rejected blocks\<close>

lemma candidates_distinct: "distinct (map fst (candidates response))"
  by (simp add: candidates_number_from number_from_fst)

lemma extract_entry_candidate:
  assumes "e \<in> set (extract_scripts_from_response response)"
  shows "\<exists>c \<in> set (candidates response).
           e = entry_of c \<and> (decision_of c = Normal \<or> decision_of c = Cleanup)"
  using assms by (auto simp: extract_scripts_char)

lemma rejected_absent:
  assumes c: "(i, language, content) \<in> set (candidates response)"
    and n: "classify language content \<noteq> Normal"
    and k: "classify language content \<noteq> Cleanup"
  shows "script_name i t \<notin> fst ` set (extract_scripts_from_response response)"
proof
  assume "script_name i t \<in> fst ` set (extract_scripts_from_response response)"
  then obtain e where e: "e \<in> set (extract_scripts_from_response response)"
    and f: "fst e = script_name i t"
    by auto
  from extract_entry_candidate [OF e] obtain c' where c': "c' \<in> set (candidates response)"
    and ec: "e = entry_of c'" and d: "decision_of c' = Normal \<or> decision_of c' = Cleanup"
    by blast
  obtain i' l' b' where cc: "c' = (i', l', b')" by (cases c')
  from f ec cc have "i' = i"
    by (auto simp: entry_of_def dest: script_name_inj)
  with c' cc have "(i, l', b') \<in> set (candidates response)" by simp
  with c candidates_distinct [of response] have "(l', b') = (language, content)"
    by (meson eq_key_imp_eq_value)
  with d cc n k show False by (simp add: decision_of_def)
qed

definition gap_example :: string where
  "gap_example =
     ''```bash'' @ [newline] @ ''echo one'' @ [newline] @ ''```'' @ [newline] @
     ''```yaml'' @ [newline] @ ''key: value'' @ [newline] @ ''```'' @ [newline] @
     ''```sh'' @ [newline] @ ''echo three'' @ [newline] @ ''```''"

text \<open>
  Claim C9. Every entry of the returned scripts is named \<open>script_\<close>, its ordinal, an
  underscore and its normalized type; the ordinals number the matched blocks from 1, one
  by one, whether a block is rejected or not; so the names of one result are distinct.
\<close>

theorem script_names_from_ordinals:
  "(\<forall>e \<in> set (extract_scripts_from_response response).
      \<exists>i language content. (i, language, content) \<in> set (candidates response) \<and>
        fst e = script_name i (sd_type (snd e)) \<and>
        sd_type (snd e) = normalize_type (lower language)) \<and>
   map fst (candidates response) = [1 ..< Suc (length (findall response))] \<and>
   map snd (candidates response) = findall response \<and>
   distinct (map fst (extract_scripts_from_response response))"
proof (intro conjI ballI)
  fix e
  assume "e \<in> set (extract_scripts_from_response response)"
  from extract_entry_candidate [OF this] obtain c where c: "c \<in> set (candidates response)"
    and e: "e = entry_of c"
    by blast
  obtain i language content where "c = (i, language, content)" by (cases c)
  with c e show "\<exists>i language content. (i, language, content) \<in> set (candidates response) \<and>
        fst e = script_name i (sd_type (snd e)) \<and>
        sd_type (snd e) = normalize_type (lower language)"
    by (auto simp: entry_of_def)
next
  show "map fst (candidates response) = [1 ..< Suc (length (findall response))]"
    by (rule candidates_ordinals)
next
  show "map snd (candidates response) = findall response"
    by (simp add: candidates_def del: upt_Suc)
next
  let ?cs = "candidates response"
  let ?N = "filter (\<lambda>c. decision_of c = Normal) ?cs"
  let ?K = "filter (\<lambda>c. decision_of c = Cleanup) ?cs"
  have "distinct (map fst (?N @ ?K))"
    using candidates_distinct by (rule filter_two_distinct) auto
  then have "distinct (map (fst \<circ> entry_of) (?N @ ?K))"
    by (rule entry_names_distinct)
  then show "distinct (map fst (extract_scripts_from_response response))"
    by (simp add: extract_scripts_char)
qed

text \<open>With a rejected block in the middle the ordinals of the result have a gap.\<close>

theorem script_names_from_ordinals_witness:
  "map fst (extract_scripts_from_response gap_example) = [''script_1_bash'', ''script_3_bash''] \<and>
   map fst (candidates gap_example) = [1, 2, 3] \<and>
   distinct (map fst (extract_scripts_from_response gap_example))"
proof -
  have n: "map fst (extract_scripts_from_response gap_example) =
      [''script_1_bash'', ''script_3_bash'']"
    by code_simp
  have l: "length (findall gap_example) = 3"
    by code_simp
  from script_names_from_ordinals [of gap_example]
  have "map fst (candidates gap_example) = [1 ..< Suc (length (findall gap_example))]"
    and d: "distinct (map fst (extract_scripts_from_response gap_example))"
    by blast+
  with l have "map fst (candidates gap_example) = [1, 2, 3]"
    by (simp add: upt_conv_Cons del: upt_Suc)
  with n d show ?thesis by blast
qed

text \<open>
  Claim C2. A block whose language token, lower-cased, is on the list of non-executable
  formats is decided rejected-non-executable whatever its content, and no script of the
  result carries its ordinal.
\<close>

theorem non_executable_rejected:
  "lower language \<in> set non_executable \<Longrightarrow>
     classify language content = RejectedNonExecutable \<and>
     (\<forall>i t. (i, language, content) \<in> set (candidates response) \<longrightarrow>
        script_name i t \<notin> fst ` set (extract_scripts_from_response response))"
proof (intro conjI allI impI)
  assume a: "lower language \<in> set non_executable"
  then show c: "classify language content = RejectedNonExecutable"
    by (simp add: classify_def)
  fix i t
  assume "(i, language, content) \<in> set (candidates response)"
  then show "script_name i t \<notin> fst ` set (extract_scripts_from_response response)"
    using c by (intro rejected_absent) auto
qed

text \<open>The claim at an upper-case token, and at the yaml block of the example.\<close>

theorem non_executable_rejected_witness:
  "lower ''YAML'' \<in> set non_executable \<and>
   classify ''YAML'' ''echo hi'' = RejectedNonExecutable \<and>
   (2, ''yaml'', ''key: value'' @ [newline]) \<in> set (candidates gap_example) \<and>
   ''script_2_yaml'' \<notin> fst ` set (extract_scripts_from_response gap_example)"
proof -
  have a: "lower ''YAML'' \<in> set non_executable" by code_simp
  have b: "lower ''yaml'' \<in> set non_executable" by code_simp
  have c: "(2, ''yaml'', ''key: value'' @ [newline]) \<in> set (candidates gap_example)"
    by code_simp
  have s: "script_name 2 ''yaml'' = ''script_2_yaml''" by code_simp
  from non_executable_rejected [OF a, of "''echo hi''" gap_example]
  have 1: "classify ''YAML'' ''echo hi'' = RejectedNonExecutable" by blast
  from non_executable_rejected [OF b, of "''key: value'' @ [newline]" gap_example] c
  have "script_name 2 ''yaml'' \<notin> fst ` set (extract_scripts_from_response gap_example)"
    by blast
  with s a 1 c show ?thesis by simp
qed

subsection \<open>Runner scripts\<close>

text \<open>
  The rule as the specification words it: the lines of the content, each without its
  surrounding white space; blank lines and comment lines are left out; at most two
  lines remain, and one of them changes the mode of a shell file or starts one.
\<close>

definition runner_line :: "string \<Rightarrow> bool" where
  "runner_line l =
     ((str_in ''chmod'' l \<and> str_in ''.sh'' l) \<or> (startswith ''./'' l \<and> str_in ''.sh'' l))"

definition substantive_lines :: "string \<Rightarrow> string list" where
  "substantive_lines content =
     filter (\<lambda>l. l \<noteq> [] \<and> \<not> startswith ''#'' l) (map strip (split newline content))"

definition runner_by_spec :: "string \<Rightarrow> bool" where
  "runner_by_spec content =
     (length (substantive_lines content) \<le> 2 \<and> list_ex runner_line (substantive_lines content))"

definition runner_example :: string where
  "runner_example = ''chmod +x run.sh'' @ [newline] @ ''./run.sh''"

definition runner_response :: string where
  "runner_response = ''```bash'' @ [newline] @ runner_example @ [newline] @ ''```''"

definition stripped_lines :: "string \<Rightarrow> string list" where
  "stripped_lines s = filter (\<lambda>l. l \<noteq> []) (map strip (split newline s))"

lemma strip_Nil: "strip [] = []"
  by (simp add: strip_def strip_with_def)

lemma strip_Cons_space: "isspace c \<Longrightarrow> strip (c # l) = strip l"
  by (simp add: strip_def strip_with_def)

lemma strip_snoc_space:
  assumes "isspace c"
  shows "strip (l @ [c]) = strip l"
proof (cases "\<forall>x \<in> set l. isspace x")
  case True
  then have a: "dropWhile isspace l = []"
    by (simp only: dropWhile_eq_Nil_conv)
  from True assms have "\<forall>x \<in> set (l @ [c]). isspace x"
    by simp
  then have b: "dropWhile isspace (l @ [c]) = []"
    by (simp only: dropWhile_eq_Nil_conv)
  show ?thesis
    unfolding strip_def strip_with_def a b by (rule refl)
next
  case False
  then obtain x where "x \<in> set l" and "\<not> isspace x" by blast
  then have "dropWhile isspace (l @ [c]) = dropWhile isspace l @ [c]"
    by (rule dropWhile_append1)
  with assms show ?thesis by (simp add: strip_def strip_with_def)
qed

lemma split_not_Nil: "split sep s \<noteq> []"
  by (induction s) (auto split: list.splits)

lemma split_snoc:
  "split sep (s @ [c]) =
     (if c = sep then split sep s @ [[]]
      else butlast (split sep s) @ [last (split sep s) @ [c]])"
proof (induction s)
  case Nil
  show ?case by simp
next
  case (Cons x s)
  obtain l ls where sp: "split sep s = l # ls"
    using split_not_Nil [of sep s] by (cases "split sep s") auto
  show ?case
  proof (cases "c = sep")
    case True
    with Cons sp show ?thesis by simp
  next
    case False
    with Cons sp show ?thesis by (cases ls) auto
  qed
qed

lemma stripped_lines_Cons_space:
  assumes "isspace c"
  shows "stripped_lines (c # s) = stripped_lines s"
proof -
  obtain l ls where sp: "split newline s = l # ls"
    using split_not_Nil [of newline s] by (cases "split newline s") auto
  show ?thesis
  proof (cases "c = newline")
    case True
    then show ?thesis by (simp add: stripped_lines_def strip_Nil)
  next
    case False
    with sp assms show ?thesis by (simp add: stripped_lines_def strip_Cons_space)
  qed
qed

lemma stripped_lines_dropWhile: "stripped_lines (dropWhile isspace s) = stripped_lines s"
  by (induction s) (simp_all add: stripped_lines_Cons_space)

lemma stripped_lines_snoc_space:
  assumes "isspace c"
  shows "stripped_lines (s @ [c]) = stripped_lines s"
proof (cases "c = newline")
  case True
  then show ?thesis by (simp add: stripped_lines_def split_snoc strip_Nil)
next
  case False
  have "split newline s = butlast (split newline s) @ [last (split newline s)]"
    using split_not_Nil by simp
  then have "stripped_lines s =
      filter (\<lambda>l. l \<noteq> []) (map strip (butlast (split newline s) @ [last (split newline s)]))"
    by (simp add: stripped_lines_def)
  with False assms show ?thesis
    by (simp add: stripped_lines_def split_snoc strip_snoc_space)
qed

lemma stripped_lines_append_spaces:
  "\<forall>c \<in> set ws. isspace c \<Longrightarrow> stripped_lines (u @ ws) = stripped_lines u"
proof (induction ws rule: rev_induct)
  case Nil
  show ?case by simp
next
  case (snoc c ws)
  then have "stripped_lines ((u @ ws) @ [c]) = stripped_lines (u @ ws)"
    by (intro stripped_lines_snoc_space) simp
  with snoc show ?case by simp
qed

lemma stripped_lines_strip: "stripped_lines (strip s) = stripped_lines s"
proof -
  let ?t = "dropWhile isspace s"
  have "rev (dropWhile isspace (rev ?t)) @ rev (takeWhile isspace (rev ?t)) =
      rev (takeWhile isspace (rev ?t) @ dropWhile isspace (rev ?t))"
    by (simp only: rev_append)
  also have "\<dots> = rev (rev ?t)"
    by (simp only: takeWhile_dropWhile_id)
  finally have t: "rev (dropWhile isspace (rev ?t)) @ rev (takeWhile isspace (rev ?t)) = ?t"
    by simp
  have "\<forall>c \<in> set (rev (takeWhile isspace (rev ?t))). isspace c"
    by (auto dest: set_takeWhileD)
  then have "stripped_lines (rev (dropWhile isspace (rev ?t)) @ rev (takeWhile isspace (rev ?t))) =
      stripped_lines (rev (dropWhile isspace (rev ?t)))"
    by (rule stripped_lines_append_spaces)
  with t have "stripped_lines (rev (dropWhile isspace (rev ?t))) = stripped_lines ?t"
    by (simp only:)
  then show ?thesis
    by (simp add: strip_def strip_with_def stripped_lines_dropWhile)
qed

lemma actual_lines_stripped:
  "actual_lines content = filter (\<lambda>l. \<not> startswith ''#'' l) (stripped_lines (strip content))"
  by (simp add: actual_lines_def stripped_lines_def filter_map comp_def conj_commute)

lemma substantive_lines_stripped:
  "substantive_lines content = filter (\<lambda>l. \<not> startswith ''#'' l) (stripped_lines content)"
  by (simp add: substantive_lines_def stripped_lines_def conj_commute)

lemma actual_lines_substantive: "actual_lines content = substantive_lines content"
  by (simp add: actual_lines_stripped substantive_lines_stripped stripped_lines_strip)

lemma runner_loop_ex: "runner_loop ls = list_ex runner_line ls"
  by (induction ls) (auto simp: runner_line_def)

lemma is_runner_script_spec: "is_runner_script content = runner_by_spec content"
  by (simp add: is_runner_script_def runner_by_spec_def actual_lines_substantive runner_loop_ex)

text \<open>
  Claim C3 (amended). A candidate whose lower-cased language is not on the list of
  non-executable formats is decided rejected-runner exactly when its content, split into
  lines with each line trimmed of surrounding white space, has at most two lines left
  after the blank lines and the lines starting with \<open>#\<close> are removed, and one of
  those lines contains both \<open>chmod\<close> and \<open>.sh\<close>, or starts with \<open>./\<close> and contains
  \<open>.sh\<close>; such a candidate is not in the result; the content
  \<open>chmod +x run.sh\<close>, newline, \<open>./run.sh\<close> is decided rejected-runner.
\<close>

theorem runner_rejected:
  "lower language \<notin> set non_executable \<Longrightarrow>
     (classify language content = RejectedRunner \<longleftrightarrow> runner_by_spec content) \<and>
     (\<forall>i t. runner_by_spec content \<and> (i, language, content) \<in> set (candidates response) \<longrightarrow>
        script_name i t \<notin> fst ` set (extract_scripts_from_response response)) \<and>
     classify language runner_example = RejectedRunner"
proof (intro conjI allI impI)
  assume a: "lower language \<notin> set non_executable"
  then show c: "classify language content = RejectedRunner \<longleftrightarrow> runner_by_spec content"
    by (simp add: classify_def is_runner_script_spec)
  have "runner_by_spec runner_example"
    by code_simp
  with a show "classify language runner_example = RejectedRunner"
    by (simp add: classify_def is_runner_script_spec)
  fix i t
  assume "runner_by_spec content \<and> (i, language, content) \<in> set (candidates response)"
  with c have "(i, language, content) \<in> set (candidates response)"
    and "classify language content = RejectedRunner"
    by simp_all
  then show "script_name i t \<notin> fst ` set (extract_scripts_from_response response)"
    by (intro rejected_absent) auto
qed

text \<open>The amended claim at a bash block holding the runner of the claim.\<close>

theorem runner_rejected_witness:
  "lower ''bash'' \<notin> set non_executable \<and>
   runner_by_spec (runner_example @ [newline]) \<and>
   classify ''bash'' (runner_example @ [newline]) = RejectedRunner \<and>
   classify ''bash'' runner_example = RejectedRunner \<and>
   (1, ''bash'', runner_example @ [newline]) \<in> set (candidates runner_response) \<and>
   ''script_1_bash'' \<notin> fst ` set (extract_scripts_from_response runner_response)"
proof -
  have a: "lower ''bash'' \<notin> set non_executable" by code_simp
  have r: "runner_by_spec (runner_example @ [newline])" by code_simp
  have c: "(1, ''bash'', runner_example @ [newline]) \<in> set (candidates runner_response)"
    by code_simp
  have s: "script_name 1 ''bash'' = ''script_1_bash''" by code_simp
  note t = runner_rejected [OF a, of "runner_example @ [newline]" runner_response]
  from t r have 1: "classify ''bash'' (runner_example @ [newline]) = RejectedRunner"
    by blast
  from t have 2: "classify ''bash'' runner_example = RejectedRunner"
    by blast
  from t r c have "script_name 1 ''bash'' \<notin> fst ` set (extract_scripts_from_response runner_response)"
    by blast
  with s a r c 1 2 show ?thesis by simp
qed

text \<open>
  Claim C3 as stated fails where the language is on the list of non-executable formats:
  a \<open>txt\<close> block with the runner content meets the condition on the content, and is
  decided rejected-non-executable at the first test of the loop.
\<close>

theorem runner_rejected_counterexample:
  "runner_by_spec runner_example \<and> classify ''txt'' runner_example = RejectedNonExecutable"
  by code_simp

subsection \<open>Cleanup scripts\<close>


















section \<open>Properties of the executor\<close>

subsection \<open>Timeouts, exit status and success\<close>

definition timeout_runner :: "unit runner" where
  "timeout_runner w script_content script_type timeout script_index = (TimeoutExpired, w)"

text \<open>A process that writes the text of the timeout message to its standard error
  and returns 1.\<close>

definition mimic_runner :: "unit runner" where
  "mimic_runner w script_content script_type timeout script_index =
     (Completed 1 [] (timeout_message timeout), w)"

definition mimic_script :: string where
  "mimic_script =
     ''printf %s '' @ [CHR 0x22] @ ''Script execution timed out after 600 seconds'' @ [CHR 0x22] @
     '' >&2; exit 1''"

text \<open>A process that writes one byte that is no UTF-8 text and returns 0: decoding its
  output raises in \<^verbatim>\<open>subprocess.run\<close>.\<close>

definition decode_error_text :: string where
  "decode_error_text =
     [CHR 0x27] @ ''utf-8'' @ [CHR 0x27] @ '' codec can'' @ [CHR 0x27] @
     ''t decode byte 0xff in position 0: invalid start byte''"

definition decode_failure_runner :: "unit runner" where
  "decode_failure_runner w script_content script_type timeout script_index =
     (OtherException (Some 0) decode_error_text, w)"

definition binary_script :: string where
  "binary_script = ''printf '' @ [CHR 0x27, CHR 0x5C] @ ''xff'' @ [CHR 0x27]"

text \<open>A process that prints a line and returns 0.\<close>

definition hello_runner :: "unit runner" where
  "hello_runner w script_content script_type timeout script_index =
     (Completed 0 (''hi'' @ [newline]) [], w)"

text \<open>
  Claim C7 (amended). When the execution times out, \<open>execute_script\<close> returns failure
  with empty standard output and the message \<open>Script execution timed out after\<close>, the
  timeout, \<open>seconds\<close> as standard error. When the process ends and its output is
  captured with no exception, it returns the captured output, with success exactly when
  the exit status is zero. When another exception is raised while the script is
  prepared, started or its output captured, it returns failure with empty standard
  output and \<open>Failed to execute script:\<close> with the text of the exception, whatever the
  exit status. So a script succeeds only if its process ends with status zero. The
  result of a timeout differs from the result of a non-zero exit unless the process
  itself wrote nothing to its standard output and exactly the timeout message to its
  standard error.
\<close>

theorem timeout_result:
  "(run w script_content script_type timeout script_index = (TimeoutExpired, w') \<longrightarrow>
      execute_script run w script_content script_type timeout script_index =
        ((False, [], ''Script execution timed out after '' @ show_int timeout @ '' seconds''), w')) \<and>
   (run w script_content script_type timeout script_index = (Completed returncode out err, w') \<longrightarrow>
      execute_script run w script_content script_type timeout script_index =
        ((returncode = 0, out, err), w')) \<and>
   (run w script_content script_type timeout script_index = (OtherException status e, w') \<longrightarrow>
      execute_script run w script_content script_type timeout script_index =
        ((False, [], ''Failed to execute script: '' @ e), w')) \<and>
   (fst (fst (execute_script run w script_content script_type timeout script_index)) \<longrightarrow>
      exit_status (fst (run w script_content script_type timeout script_index)) = Some 0) \<and>
   (outcome_of timeout (Completed returncode out err) = outcome_of timeout TimeoutExpired \<longleftrightarrow>
      returncode \<noteq> 0 \<and> out = [] \<and> err = timeout_message timeout)"
proof (intro conjI impI)
  assume "run w script_content script_type timeout script_index = (TimeoutExpired, w')"
  then show "execute_script run w script_content script_type timeout script_index =
        ((False, [], ''Script execution timed out after '' @ show_int timeout @ '' seconds''), w')"
    by (simp add: execute_script_def outcome_of_def timeout_message_def)
next
  assume "run w script_content script_type timeout script_index = (Completed returncode out err, w')"
  then show "execute_script run w script_content script_type timeout script_index =
        ((returncode = 0, out, err), w')"
    by (simp add: execute_script_def outcome_of_def)
next
  assume "run w script_content script_type timeout script_index = (OtherException status e, w')"
  then show "execute_script run w script_content script_type timeout script_index =
        ((False, [], ''Failed to execute script: '' @ e), w')"
    by (simp add: execute_script_def outcome_of_def)
next
  obtain ev w'' where r: "run w script_content script_type timeout script_index = (ev, w'')"
    by (cases "run w script_content script_type timeout script_index")
  assume "fst (fst (execute_script run w script_content script_type timeout script_index))"
  with r show "exit_status (fst (run w script_content script_type timeout script_index)) = Some 0"
    by (cases ev) (auto simp: execute_script_def outcome_of_def exit_status_def)
next
  show "outcome_of timeout (Completed returncode out err) = outcome_of timeout TimeoutExpired \<longleftrightarrow>
      returncode \<noteq> 0 \<and> out = [] \<and> err = timeout_message timeout"
    by (auto simp: outcome_of_def)
qed

text \<open>The amended claim at a timeout of one second, at a script that prints a line, and
  at a process whose output cannot be decoded.\<close>

theorem timeout_result_witness:
  "timeout_runner () ''sleep 60'' ''bash'' 1 0 = (TimeoutExpired, ()) \<and>
   execute_script timeout_runner () ''sleep 60'' ''bash'' 1 0 =
     ((False, [], ''Script execution timed out after 1 seconds''), ()) \<and>
   hello_runner () ''echo hi'' ''bash'' 600 0 = (Completed 0 (''hi'' @ [newline]) [], ()) \<and>
   execute_script hello_runner () ''echo hi'' ''bash'' 600 0 =
     ((True, ''hi'' @ [newline], []), ()) \<and>
   exit_status (fst (hello_runner () ''echo hi'' ''bash'' 600 0)) = Some 0 \<and>
   decode_failure_runner () binary_script ''bash'' 600 0 =
     (OtherException (Some 0) decode_error_text, ()) \<and>
   execute_script decode_failure_runner () binary_script ''bash'' 600 0 =
     ((False, [], ''Failed to execute script: '' @ decode_error_text), ())"
proof -
  have r: "timeout_runner () ''sleep 60'' ''bash'' 1 0 = (TimeoutExpired, ())"
    by (simp add: timeout_runner_def)
  have s: "show_int 1 = ''1''"
    by code_simp
  from timeout_result [of timeout_runner "()" "''sleep 60''" "''bash''" 1 0 "()"] r
  have "execute_script timeout_runner () ''sleep 60'' ''bash'' 1 0 =
      ((False, [], ''Script execution timed out after '' @ show_int 1 @ '' seconds''), ())"
    by blast
  with s have 1: "execute_script timeout_runner () ''sleep 60'' ''bash'' 1 0 =
      ((False, [], ''Script execution timed out after 1 seconds''), ())"
    by simp
  have h: "hello_runner () ''echo hi'' ''bash'' 600 0 = (Completed 0 (''hi'' @ [newline]) [], ())"
    by (simp add: hello_runner_def)
  note t = timeout_result [of hello_runner "()" "''echo hi''" "''bash''" 600 0 "()" 0
      "''hi'' @ [newline]" "[]"]
  from t h have 2: "execute_script hello_runner () ''echo hi'' ''bash'' 600 0 =
     ((True, ''hi'' @ [newline], []), ())"
    by simp
  from t 2 have 3: "exit_status (fst (hello_runner () ''echo hi'' ''bash'' 600 0)) = Some 0"
    by simp
  have d: "decode_failure_runner () binary_script ''bash'' 600 0 =
     (OtherException (Some 0) decode_error_text, ())"
    by (simp add: decode_failure_runner_def)
  from timeout_result [of decode_failure_runner "()" binary_script "''bash''" 600 0 "()" _ _ _
      "Some 0" decode_error_text] d
  have 4: "execute_script decode_failure_runner () binary_script ''bash'' 600 0 =
     ((False, [], ''Failed to execute script: '' @ decode_error_text), ())"
    by blast
  from r 1 h 2 3 d 4 show ?thesis by blast
qed

text \<open>
  Claim C7 as stated fails at two inputs. The result of the process that mimics the
  message is the result of a timeout; and the process that ends with status zero while
  its output cannot be decoded is reported as failed, the exception being caught in
  \<open>execute_script\<close>.
\<close>

theorem timeout_result_counterexample:
  "fst (mimic_runner () mimic_script ''bash'' 600 0) =
     Completed 1 [] ''Script execution timed out after 600 seconds'' \<and>
   fst (timeout_runner () ''sleep 900'' ''bash'' 600 0) = TimeoutExpired \<and>
   fst (execute_script mimic_runner () mimic_script ''bash'' 600 0) =
     fst (execute_script timeout_runner () ''sleep 900'' ''bash'' 600 0) \<and>
   exit_status (fst (decode_failure_runner () binary_script ''bash'' 600 0)) = Some 0 \<and>
   fst (fst (execute_script decode_failure_runner () binary_script ''bash'' 600 0)) = False"
  by code_simp

subsection \<open>File names of the saved scripts\<close>

text \<open>Sanitizing as the specification words it: the characters that are no word
  character, hyphen or dot are taken out, and the last 50 characters kept.\<close>

definition sanitize_by_spec :: "string \<Rightarrow> string" where
  "sanitize_by_spec source_context =
     (let kept = filter safe_char source_context
      in if length kept > 50 then drop (length kept - 50) kept else kept)"

lemma random_choices_length: "length (random_choices draw population k) = k"
  by (simp add: random_choices_def)

lemma random_choices_members:
  assumes "population \<noteq> []"
  shows "set (random_choices draw population k) \<subseteq> set population"
proof
  fix x
  assume "x \<in> set (random_choices draw population k)"
  then obtain j where "x = population ! (draw j mod length population)"
    by (auto simp: random_choices_def)
  moreover from assms have "draw j mod length population < length population"
    by simp
  ultimately show "x \<in> set population" by simp
qed

lemma suffix_alphabet_not_Nil: "suffix_alphabet \<noteq> []"
  by (simp add: suffix_alphabet_def)

lemma underscore_safe: "safe_char (CHR ''_'')"
  by (simp add: safe_char_def is_word_def code_def)

lemma set_strip_with: "set (strip_with P s) \<subseteq> set s"
proof -
  have "set (strip_with P s) \<subseteq> set (dropWhile P s)"
    unfolding strip_with_def by (auto dest: set_dropWhileD)
  also have "\<dots> \<subseteq> set s"
    by (auto dest: set_dropWhileD)
  finally show ?thesis .
qed

lemma sanitize_safe: "c \<in> set (sanitize src) \<Longrightarrow> safe_char c"
proof -
  let ?m = "map (\<lambda>c. if safe_char c then c else CHR ''_'') src"
  let ?s = "strip_with (\<lambda>c. c = CHR ''_'') ?m"
  assume "c \<in> set (sanitize src)"
  then have "c \<in> set ?s"
    by (auto simp: sanitize_def Let_def split: if_splits dest: in_set_dropD)
  with set_strip_with have "c \<in> set ?m" by blast
  then show ?thesis by (auto simp: underscore_safe split: if_splits)
qed

lemma sanitize_length: "length (sanitize src) \<le> 50"
  by (simp add: sanitize_def Let_def)

lemma extension_dot: "\<exists>d. extension_of script_type = ''.'' @ d"
  by (simp add: extension_of_def)

text \<open>
  Claim C8 (amended). Every file name of a saved script is \<open>_gen-\<close>, a middle part, a
  hyphen, six characters drawn from the lower-case letters and the digits, and an
  extension that starts with a dot. The middle part is \<open>script\<close> and the index when
  there is no source context; otherwise it is the sanitized source context: every
  character that is no word character, hyphen or dot is replaced by an underscore,
  leading and trailing underscores are stripped, and of a text longer than 50
  characters the last 50 are kept.
\<close>

theorem generated_filename_shape:
  "(\<exists>middle random_suffix.
      generate_script_filename source_context draw script_type script_index =
        ''_gen-'' @ middle @ ''-'' @ random_suffix @ extension_of script_type \<and>
      length random_suffix = 6 \<and> set random_suffix \<subseteq> set suffix_alphabet \<and>
      middle = (case source_context of
                  None \<Rightarrow> ''script'' @ show_nat script_index
                | Some src \<Rightarrow> if src = [] then ''script'' @ show_nat script_index
                              else sanitize src)) \<and>
   (\<exists>d. extension_of script_type = ''.'' @ d) \<and>
   sanitize src =
     (let replaced = map (\<lambda>c. if safe_char c then c else CHR ''_'') src;
          stripped = strip_with (\<lambda>c. c = CHR ''_'') replaced
      in if length stripped > 50 then drop (length stripped - 50) stripped else stripped) \<and>
   length (sanitize src) \<le> 50 \<and>
   (\<forall>c \<in> set (sanitize src). safe_char c)"
proof (intro conjI ballI)
  let ?r = "random_choices draw suffix_alphabet 6"
  let ?m = "case source_context of
              None \<Rightarrow> ''script'' @ show_nat script_index
            | Some src \<Rightarrow> if src = [] then ''script'' @ show_nat script_index else sanitize src"
  have "generate_script_filename source_context draw script_type script_index =
      ''_gen-'' @ ?m @ ''-'' @ ?r @ extension_of script_type"
    by (simp add: generate_script_filename_def Let_def split: option.splits)
  moreover have "length ?r = 6"
    by (rule random_choices_length)
  moreover have "set ?r \<subseteq> set suffix_alphabet"
    by (rule random_choices_members [OF suffix_alphabet_not_Nil])
  ultimately show "\<exists>middle random_suffix.
      generate_script_filename source_context draw script_type script_index =
        ''_gen-'' @ middle @ ''-'' @ random_suffix @ extension_of script_type \<and>
      length random_suffix = 6 \<and> set random_suffix \<subseteq> set suffix_alphabet \<and>
      middle = ?m"
    by blast
next
  show "\<exists>d. extension_of script_type = ''.'' @ d"
    by (rule extension_dot)
next
  show "sanitize src =
     (let replaced = map (\<lambda>c. if safe_char c then c else CHR ''_'') src;
          stripped = strip_with (\<lambda>c. c = CHR ''_'') replaced
      in if length stripped > 50 then drop (length stripped - 50) stripped else stripped)"
    by (simp add: sanitize_def)
next
  show "length (sanitize src) \<le> 50"
    by (rule sanitize_length)
next
  fix c
  assume "c \<in> set (sanitize src)"
  then show "safe_char c" by (rule sanitize_safe)
qed

text \<open>The amended claim at a path as source context.\<close>

theorem generated_filename_shape_witness:
  "generate_script_filename (Some ''docs/README.md'') (\<lambda>j. 7 * j) ''bash'' 0 =
     ''_gen-docs_README.md-ahov29.sh'' \<and>
   sanitize ''docs/README.md'' = ''docs_README.md'' \<and>
   length (sanitize ''docs/README.md'') \<le> 50 \<and>
   list_all safe_char (sanitize ''docs/README.md'')"
proof -
  have f: "generate_script_filename (Some ''docs/README.md'') (\<lambda>j. 7 * j) ''bash'' 0 =
     ''_gen-docs_README.md-ahov29.sh''"
    by code_simp
  have s: "sanitize ''docs/README.md'' = ''docs_README.md''"
    by code_simp
  note t = generated_filename_shape [of "Some ''docs/README.md''" "\<lambda>j. 7 * j" "''bash''" 0
      "''docs/README.md''"]
  from t have l: "length (sanitize ''docs/README.md'') \<le> 50"
    by blast
  from t have "\<forall>c \<in> set (sanitize ''docs/README.md''). safe_char c"
    by blast
  then have "list_all safe_char (sanitize ''docs/README.md'')"
    by (simp only: list_all_iff)
  with f s l show ?thesis by blast
qed

text \<open>
  Claim C8 as stated fails on the slash of a path: it is replaced by an underscore, not
  taken out.
\<close>

theorem generated_filename_shape_counterexample:
  "sanitize ''docs/README.md'' = ''docs_README.md'' \<and>
   sanitize_by_spec ''docs/README.md'' = ''docsREADME.md'' \<and>
   generate_script_filename (Some ''docs/README.md'') (\<lambda>j. 7 * j) ''bash'' 0 =
     ''_gen-docs_README.md-ahov29.sh''"
  by code_simp

subsection \<open>Stopping at the first failure\<close>

definition succeeded :: "string \<times> bool \<times> string \<times> string \<Rightarrow> bool" where
  "succeeded r = fst (snd r)"

text \<open>The number of ss that run when the loop stops at the first failure: those
  before the first failing one, and that one.\<close>

definition executed_count :: "outcomes \<Rightarrow> nat" where
  "executed_count outs = Suc (length (takeWhile succeeded outs))"

lemma run_all_names: "map fst (fst (run_all run idx ss w)) = map fst ss"
proof (induction ss arbitrary: idx w)
  case Nil
  show ?case by simp
next
  case (Cons x ss)
  obtain name info where x: "x = (name, info)" by (cases x)
  obtain r w' where e: "execute_script run w (sd_content info) (sd_type info) 600 idx = (r, w')"
    by (cases "execute_script run w (sd_content info) (sd_type info) 600 idx")
  obtain rs w'' where a: "run_all run (Suc idx) ss w' = (rs, w'')"
    by (cases "run_all run (Suc idx) ss w'")
  from Cons [of "Suc idx" w'] a have "map fst rs = map fst ss" by simp
  with x e a show ?case by simp
qed

lemma run_all_take:
  "fst (run_all run idx (take n ss) w) = take n (fst (run_all run idx ss w))"
proof (induction ss arbitrary: idx w n)
  case Nil
  show ?case by simp
next
  case (Cons x ss)
  obtain name info where x: "x = (name, info)" by (cases x)
  obtain r w' where e: "execute_script run w (sd_content info) (sd_type info) 600 idx = (r, w')"
    by (cases "execute_script run w (sd_content info) (sd_type info) 600 idx")
  show ?case
  proof (cases n)
    case 0
    then show ?thesis by simp
  next
    case (Suc m)
    obtain rs w'' where a: "run_all run (Suc idx) ss w' = (rs, w'')"
      by (cases "run_all run (Suc idx) ss w'")
    obtain rs' v where b: "run_all run (Suc idx) (take m ss) w' = (rs', v)"
      by (cases "run_all run (Suc idx) (take m ss) w'")
    from Cons [of "Suc idx" m w'] a b have "rs' = take m rs" by simp
    with x e a b Suc show ?thesis by simp
  qed
qed

lemma exec_loop_stop:
  "distinct (map fst ss) \<Longrightarrow> set (map fst ss) \<inter> fst ` set acc = {} \<Longrightarrow>
   exec_loop run True idx ss acc w =
     (acc @ take (executed_count (fst (run_all run idx ss w))) (fst (run_all run idx ss w)),
      snd (run_all run idx (take (executed_count (fst (run_all run idx ss w))) ss) w))"
proof (induction ss arbitrary: idx acc w)
  case Nil
  show ?case by simp
next
  case (Cons x ss)
  obtain name info where x: "x = (name, info)" by (cases x)
  obtain ok out err w' where
    e: "execute_script run w (sd_content info) (sd_type info) 600 idx = ((ok, out, err), w')"
    by (cases "execute_script run w (sd_content info) (sd_type info) 600 idx") auto
  obtain rs w'' where a: "run_all run (Suc idx) ss w' = (rs, w'')"
    by (cases "run_all run (Suc idx) ss w'")
  from Cons.prems x have "name \<notin> fst ` set acc" by auto
  then have f: "dict_set acc name (ok, out, err) = acc @ [(name, ok, out, err)]"
    by (rule dict_set_fresh)
  show ?case
  proof (cases ok)
    case False
    with x e a f show ?thesis
      by (simp add: executed_count_def succeeded_def)
  next
    case True
    from Cons.prems x have d: "distinct (map fst ss)"
      and i: "set (map fst ss) \<inter> fst ` set (acc @ [(name, ok, out, err)]) = {}"
      by auto
    let ?n = "executed_count rs"
    obtain rs' v where b: "run_all run (Suc idx) (take ?n ss) w' = (rs', v)"
      by (cases "run_all run (Suc idx) (take ?n ss) w'")
    from Cons.IH [OF d i, of "Suc idx" w'] a b
    have "exec_loop run True (Suc idx) ss (acc @ [(name, ok, out, err)]) w' =
        ((acc @ [(name, ok, out, err)]) @ take ?n rs, v)"
      by simp
    moreover have "executed_count ((name, ok, out, err) # rs) = Suc ?n"
      using True by (simp add: executed_count_def succeeded_def)
    ultimately show ?thesis
      using x e a b f True by simp
  qed
qed

definition logging_runner :: "string list runner" where
  "logging_runner w script_content script_type timeout script_index =
     (if str_in ''exit 1'' script_content then Completed 1 [] [] else Completed 0 script_content [],
      w @ [script_content])"

definition three_scripts :: script_dict where
  "three_scripts =
     [(''script_1_bash'', \<lparr>sd_content = ''echo one'', sd_type = ''bash''\<rparr>),
      (''script_2_bash'', \<lparr>sd_content = ''exit 1'', sd_type = ''bash''\<rparr>),
      (''script_3_bash'', \<lparr>sd_content = ''echo three'', sd_type = ''bash''\<rparr>)]"

text \<open>
  Claim C6. With \<open>stop_on_failure\<close> set, \<open>execute_multiple_scripts\<close> runs the scripts
  in the order of the dictionary and stops after the first one that fails: with \<open>n\<close>
  the number of scripts up to and including the first failing one, the call does what
  running the first \<open>n\<close> scripts in turn does, to the results and to the world; the
  results hold an entry for each of these \<open>n\<close> scripts, in order, and for no other;
  every script before the last of them succeeded, and when scripts are left over the
  last one failed.
\<close>

theorem stop_on_first_failure:
  assumes "distinct (map fst ss)"
    and "outs = fst (run_all run 0 ss w)"
    and "n = executed_count outs"
    and "res = fst (execute_multiple_scripts run True w ss)"
  shows "execute_multiple_scripts run True w ss = run_all run 0 (take n ss) w \<and>
     res = take n outs \<and>
     map fst res = take n (map fst ss) \<and>
     (\<forall>j. j < n - 1 \<longrightarrow> succeeded (res ! j)) \<and>
     (n \<le> length ss \<longrightarrow> \<not> succeeded (res ! (n - 1)))"
proof -
  let ?t = "takeWhile succeeded outs"
  have n: "n = Suc (length ?t)"
    using assms(3) by (simp add: executed_count_def)
  have lo: "length outs = length ss"
    using run_all_names [of run 0 ss w] assms(2) by (metis length_map)
  have "exec_loop run True 0 ss [] w = ([] @ take n outs, snd (run_all run 0 (take n ss) w))"
    using exec_loop_stop [of ss "[]" run 0 w] assms(1-3) by simp
  then have e: "execute_multiple_scripts run True w ss =
      (take n outs, snd (run_all run 0 (take n ss) w))"
    by (simp add: execute_multiple_scripts_def)
  have r: "res = take n outs"
    using e assms(4) by simp
  have "fst (run_all run 0 (take n ss) w) = take n outs"
    using run_all_take [of run 0 n ss w] assms(2) by simp
  with e have 1: "execute_multiple_scripts run True w ss = run_all run 0 (take n ss) w"
    by (simp add: prod_eq_iff)
  have "map fst outs = map fst ss"
    using run_all_names [of run 0 ss w] assms(2) by simp
  then have "take n (map fst outs) = take n (map fst ss)"
    by simp
  with r have 2: "map fst res = take n (map fst ss)"
    by (simp only: take_map)
  have 3: "\<forall>j. j < n - 1 \<longrightarrow> succeeded (res ! j)"
  proof (intro allI impI)
    fix j
    assume "j < n - 1"
    with n have j: "j < length ?t" by simp
    then have "?t ! j \<in> set ?t" by (rule nth_mem)
    then have "succeeded (?t ! j)" by (auto dest: set_takeWhileD)
    moreover from j have "?t ! j = outs ! j" by (rule takeWhile_nth)
    moreover from j n r have "res ! j = outs ! j" by simp
    ultimately show "succeeded (res ! j)" by simp
  qed
  have 4: "n \<le> length ss \<longrightarrow> \<not> succeeded (res ! (n - 1))"
  proof
    assume "n \<le> length ss"
    with n lo have "length ?t < length outs" by simp
    then have "\<not> succeeded (outs ! length ?t)" by (rule nth_length_takeWhile)
    moreover from n r have "res ! (n - 1) = outs ! length ?t" by simp
    ultimately show "\<not> succeeded (res ! (n - 1))" by simp
  qed
  from 1 r 2 3 4 show ?thesis by blast
qed

text \<open>The claim at three scripts, the second failing, in a world that logs what is
  run: two results, and two scripts run.\<close>

theorem stop_on_first_failure_witness:
  "distinct (map fst three_scripts) \<and>
   executed_count (fst (run_all logging_runner 0 three_scripts [])) = 2 \<and>
   execute_multiple_scripts logging_runner True [] three_scripts =
     ([(''script_1_bash'', True, ''echo one'', []), (''script_2_bash'', False, [], [])],
      [''echo one'', ''exit 1''])"
proof -
  have d: "distinct (map fst three_scripts)"
    by code_simp
  have n: "executed_count (fst (run_all logging_runner 0 three_scripts [])) = 2"
    by code_simp
  have r: "run_all logging_runner 0 (take 2 three_scripts) [] =
     ([(''script_1_bash'', True, ''echo one'', []), (''script_2_bash'', False, [], [])],
      [''echo one'', ''exit 1''])"
    by code_simp
  from stop_on_first_failure [OF d refl refl refl, of logging_runner "[]"]
  have "execute_multiple_scripts logging_runner True [] three_scripts =
      run_all logging_runner 0
        (take (executed_count (fst (run_all logging_runner 0 three_scripts []))) three_scripts) []"
    by blast
  with n r d show ?thesis by simp
qed

section \<open>Properties of the orchestrator\<close>

definition detail_of :: "string \<times> bool \<times> string \<times> string \<Rightarrow> detail" where
  "detail_of r =
     (case r of (name, ok, out, err) \<Rightarrow>
        \<lparr>script = name, d_success = ok, stdout = take 1000 out, stderr = take 1000 err\<rparr>)"

definition initial_result :: "string list \<Rightarrow> test_result" where
  "initial_result sources =
     \<lparr>success = False, documentation_sources = sources, documentation_count = 0,
      scripts_generated = 0, scripts_executed = 0, scripts_passed = 0, scripts_failed = 0,
      scripts = [], details = [], error = None\<rparr>"

lemma tally_fields:
  "scripts_passed (tally outs r) = scripts_passed r + length (filter succeeded outs) \<and>
   scripts_failed (tally outs r) = scripts_failed r + length (filter (\<lambda>x. \<not> succeeded x) outs) \<and>
   details (tally outs r) = details r @ map detail_of outs \<and>
   scripts_executed (tally outs r) = scripts_executed r \<and>
   error (tally outs r) = error r \<and>
   success (tally outs r) = success r"
proof (induction outs arbitrary: r)
  case Nil
  show ?case by simp
next
  case (Cons x outs)
  obtain name ok out err where x: "x = (name, ok, out, err)" by (cases x)
  show ?case
    unfolding x by (cases ok) (simp_all add: Cons succeeded_def detail_of_def)
qed

lemma filter_split_length:
  "length (filter P xs) + length (filter (\<lambda>x. \<not> P x) xs) = length xs"
  by (induction xs) auto

text \<open>The paths of \<open>test_documentation\<close>, one by one.\<close>

lemma td_fetch_failed:
  "test_documentation (Inl e) ai executor_init run w executor_exit sources stop =
     (initial_result sources)\<lparr>error := Some (''Failed to fetch documentation: '' @ e)\<rparr>"
  by (simp add: test_documentation_def initial_result_def)

lemma td_generation_failed:
  "test_documentation (Inr docs) (Inl e) executor_init run w executor_exit sources stop =
     (initial_result sources)\<lparr>documentation_count := length docs,
        error := Some (''Failed to generate test scripts: '' @ e)\<rparr>"
  by (simp add: test_documentation_def initial_result_def generate_test_scripts_def)

lemma td_no_scripts:
  "extract_scripts_from_response response = [] \<Longrightarrow>
   test_documentation (Inr docs) (Inr response) executor_init run w executor_exit sources stop =
     (initial_result sources)\<lparr>documentation_count := length docs,
        error := Some ''No test scripts were generated''\<rparr>"
  by (simp add: test_documentation_def initial_result_def generate_test_scripts_def)

lemma td_executor_failed:
  "extract_scripts_from_response response \<noteq> [] \<Longrightarrow>
   test_documentation (Inr docs) (Inr response) (Some e) run w executor_exit sources stop =
     (initial_result sources)\<lparr>documentation_count := length docs,
        scripts_generated := length (extract_scripts_from_response response),
        scripts := extract_scripts_from_response response,
        error := Some (''Failed to execute scripts: '' @ e)\<rparr>"
  by (simp add: test_documentation_def initial_result_def generate_test_scripts_def)

text \<open>The result once the scripts are run and counted.\<close>

definition counted_result ::
  "(string \<times> string) list \<Rightarrow> script_dict \<Rightarrow> outcomes \<Rightarrow> string list \<Rightarrow> test_result" where
  "counted_result docs generated outs sources =
     tally outs ((initial_result sources)\<lparr>documentation_count := length docs,
        scripts_generated := length generated, scripts := generated,
        scripts_executed := length outs\<rparr>)"

lemma counted_result_fields:
  "scripts_passed (counted_result docs generated outs sources) = length (filter succeeded outs) \<and>
   scripts_failed (counted_result docs generated outs sources) =
     length (filter (\<lambda>x. \<not> succeeded x) outs) \<and>
   details (counted_result docs generated outs sources) = map detail_of outs \<and>
   scripts_executed (counted_result docs generated outs sources) = length outs \<and>
   error (counted_result docs generated outs sources) = None \<and>
   success (counted_result docs generated outs sources) = False"
  by (simp add: counted_result_def tally_fields initial_result_def)

lemma td_executed:
  assumes "extract_scripts_from_response response \<noteq> []"
    and "outs = fst (execute_multiple_scripts run stop w (extract_scripts_from_response response))"
  shows "test_documentation (Inr docs) (Inr response) None run w None sources stop =
     (counted_result docs (extract_scripts_from_response response) outs sources)
     \<lparr>success := length outs > 0 \<and> length (filter (\<lambda>x. \<not> succeeded x) outs) = 0\<rparr>"
proof -
  obtain ers w' where
    e: "execute_multiple_scripts run stop w (extract_scripts_from_response response) = (ers, w')"
    by (cases "execute_multiple_scripts run stop w (extract_scripts_from_response response)")
  with assms(2) have o: "outs = ers" by simp
  show ?thesis
    using assms(1) e
    by (simp add: test_documentation_def initial_result_def generate_test_scripts_def o
        tally_fields counted_result_def)
qed

lemma td_exit_failed:
  assumes "extract_scripts_from_response response \<noteq> []"
    and "outs = fst (execute_multiple_scripts run stop w (extract_scripts_from_response response))"
  shows "test_documentation (Inr docs) (Inr response) None run w (Some e) sources stop =
     (counted_result docs (extract_scripts_from_response response) outs sources)
     \<lparr>error := Some (''Failed to execute scripts: '' @ e)\<rparr>"
proof -
  obtain ers w' where
    e: "execute_multiple_scripts run stop w (extract_scripts_from_response response) = (ers, w')"
    by (cases "execute_multiple_scripts run stop w (extract_scripts_from_response response)")
  with assms(2) have o: "outs = ers" by simp
  show ?thesis
    using assms(1) e
    by (simp add: test_documentation_def initial_result_def generate_test_scripts_def o
        counted_result_def)
qed

definition single_script_response :: string where
  "single_script_response = ''```bash'' @ [newline] @ ''echo hi'' @ [newline] @ ''```''"

definition readme_docs :: "(string \<times> string) list" where
  "readme_docs = [(''README.md'', ''Run echo hi.'')]"


text \<open>
  Claim C10. In every result of \<open>test_documentation\<close> the scripts passed and the scripts
  failed add up to the scripts executed, the scripts executed are as many as the entries
  of \<open>details\<close>, and the standard output and standard error of each entry have at most
  1000 characters.
\<close>

theorem result_counts_consistent:
  assumes "r = test_documentation fetched ai executor_init run w executor_exit sources stop"
  shows "scripts_passed r + scripts_failed r = scripts_executed r \<and>
     scripts_executed r = length (details r) \<and>
     (\<forall>d \<in> set (details r). length (stdout d) \<le> 1000 \<and> length (stderr d) \<le> 1000)"
proof (cases fetched)
  case (Inl e)
  with assms show ?thesis
    by (simp add: td_fetch_failed initial_result_def)
next
  case docs: (Inr docs)
  show ?thesis
  proof (cases ai)
    case (Inl e)
    with assms docs show ?thesis
      by (simp add: td_generation_failed initial_result_def)
  next
    case resp: (Inr response)
    show ?thesis
    proof (cases "extract_scripts_from_response response = []")
      case True
      with assms docs resp show ?thesis
        by (simp add: td_no_scripts initial_result_def)
    next
      case False
      show ?thesis
      proof (cases executor_init)
        case (Some e)
        with assms docs resp False show ?thesis
          by (simp add: td_executor_failed initial_result_def)
      next
        case None
        let ?outs = "fst (execute_multiple_scripts run stop w (extract_scripts_from_response response))"
        have l: "\<forall>d \<in> set (map detail_of ?outs). length (stdout d) \<le> 1000 \<and> length (stderr d) \<le> 1000"
          by (auto simp: detail_of_def)
        have "scripts_passed r = length (filter succeeded ?outs) \<and>
            scripts_failed r = length (filter (\<lambda>x. \<not> succeeded x) ?outs) \<and>
            scripts_executed r = length ?outs \<and> details r = map detail_of ?outs"
        proof (cases executor_exit)
          case exit_ok: None
          note t = td_executed [OF False refl, where run = run and stop = stop and w = w
              and docs = docs and sources = sources]
          from assms docs resp None exit_ok t show ?thesis
            by (simp add: counted_result_fields)
        next
          case (Some e)
          note t = td_exit_failed [OF False refl, where run = run and stop = stop and w = w
              and docs = docs and sources = sources and e = e]
          from assms docs resp None Some t show ?thesis
            by (simp add: counted_result_fields)
        qed
        with l show ?thesis
          by (simp add: filter_split_length)
      qed
    qed
  qed
qed

text \<open>The claim at a run of one script that succeeds.\<close>

theorem result_counts_consistent_witness:
  "scripts_executed (test_documentation (Inr readme_docs) (Inr single_script_response) None
      hello_runner () None [''README.md''] False) = 1 \<and>
   scripts_passed (test_documentation (Inr readme_docs) (Inr single_script_response) None
      hello_runner () None [''README.md''] False) +
   scripts_failed (test_documentation (Inr readme_docs) (Inr single_script_response) None
      hello_runner () None [''README.md''] False) = 1 \<and>
   length (details (test_documentation (Inr readme_docs) (Inr single_script_response) None
      hello_runner () None [''README.md''] False)) = 1 \<and>
   list_all (\<lambda>d. length (stdout d) \<le> 1000 \<and> length (stderr d) \<le> 1000)
     (details (test_documentation (Inr readme_docs) (Inr single_script_response) None
        hello_runner () None [''README.md''] False))"
proof -
  let ?r = "test_documentation (Inr readme_docs) (Inr single_script_response) None
      hello_runner () None [''README.md''] False"
  have x: "scripts_executed ?r = 1"
    by code_simp
  note t = result_counts_consistent [OF refl, of "Inr readme_docs" "Inr single_script_response"
      None hello_runner "()" None "[''README.md'']" False]
  from t x have a: "scripts_passed ?r + scripts_failed ?r = 1"
    by simp
  from t x have b: "length (details ?r) = 1"
    by simp
  from t have "\<forall>d \<in> set (details ?r). length (stdout d) \<le> 1000 \<and> length (stderr d) \<le> 1000"
    by blast
  then have "list_all (\<lambda>d. length (stdout d) \<le> 1000 \<and> length (stderr d) \<le> 1000) (details ?r)"
    by (simp only: list_all_iff)
  with x a b show ?thesis by blast
qed




end
